theory Spec2Isabelle
  imports Main "HOL-Library.Word"
begin

unbundle bit_operations_syntax

section \<open>The hardware abstraction layer of the testboard (core/hal/hal.cc)\<close>

text \<open>
  The HAL is a pass-through layer over one external object, the testboard
  (\<^verbatim>\<open>_testboard\<close>, a \<^verbatim>\<open>CTestboard\<close>). Its functions are embedded as
  functions on the sequence of remote calls issued so far: each call of the
  source appends one entry. What the device answers (return values and
  reference parameters filled by a call) is an argument of the embedded
  function, so every theorem holds for every answer of the device.
\<close>

type_synonym uint8 = "8 word"
type_synonym uint16 = "16 word"
type_synonym int16 = "16 word"
type_synonym uint32 = "32 word"
type_synonym int32 = "32 word"
type_synonym size_t = "64 word"

subsection \<open>Remote calls\<close>

text \<open>
  One constructor per testboard method used by the embedded functions, with
  the argument values the source passes. Reference parameters that the
  device fills are not part of the call.
\<close>

datatype tb_call =
    Pg_SetCmd uint8 uint16
  | roc_I2cAddr uint8
  | roc_SetDAC uint8 uint8
  | mod_Addr uint8
  | tbm_Set uint8 uint8
  | Flush
  | roc_Chip_Mask
  | roc_Col_Enable uint8 bool
  | TrimChip "int16 list"
  | CalibrateMap int32
  | CalibratePixel int32 uint8 uint8
  | Daq_GetSize uint8
  | Daq_Read uint32 uint8

type_synonym testboard = "tb_call list"

subsection \<open>Errors\<close>

text \<open>
  \<^verbatim>\<open>std::vector::at\<close> throws \<^verbatim>\<open>std::out_of_range\<close> outside the vector; a write
  through the unchecked \<^verbatim>\<open>operator[]\<close> outside the vector is undefined
  behaviour. Both are error values here.
\<close>

datatype hal_error = out_of_range | out_of_bounds_write

definition at_vec :: "'a list \<Rightarrow> nat \<Rightarrow> hal_error + 'a" where
  "at_vec v i = (if i < length v then Inr (v ! i) else Inl out_of_range)"

subsection \<open>GetHashForString and GetHashForStringVector\<close>

text \<open>
  A C string is the list of its bytes; the loop \<^verbatim>\<open>while (*s)\<close> stops at the
  first zero byte, which is the end of the list or an embedded zero.
  \<^verbatim>\<open>s[0] * 76963\<close> is an \<^verbatim>\<open>int\<close> product of a promoted \<^verbatim>\<open>char\<close> (no overflow:
  the factor is at most 255 in absolute value), converted to \<^verbatim>\<open>uint32_t\<close> for
  the exclusive or. Whether \<^verbatim>\<open>char\<close> is signed is the platform's choice and
  is the parameter \<open>char_signed\<close>.
\<close>

definition char_promote :: "bool \<Rightarrow> uint8 \<Rightarrow> uint32" where
  "char_promote char_signed c = (if char_signed then scast c else ucast c)"

fun GetHashForString_loop :: "bool \<Rightarrow> uint32 \<Rightarrow> uint8 list \<Rightarrow> uint32" where
  "GetHashForString_loop char_signed h [] = h"
| "GetHashForString_loop char_signed h (c # s) =
     (if c = 0 then h
      else GetHashForString_loop char_signed
             ((h * 54059) XOR (char_promote char_signed c * 76963)) s)"

definition GetHashForString :: "bool \<Rightarrow> uint8 list \<Rightarrow> uint32" where
  "GetHashForString char_signed s = GetHashForString_loop char_signed 31 s mod 86969"

text \<open>
  \<^verbatim>\<open>ret += (i+1) * GetHashForString(...)\<close>: the product is computed in
  \<^verbatim>\<open>size_t\<close> and the sum is cut back to \<^verbatim>\<open>uint32_t\<close>.
\<close>

fun GetHashForStringVector_loop ::
  "bool \<Rightarrow> size_t \<Rightarrow> uint32 \<Rightarrow> uint8 list list \<Rightarrow> uint32" where
  "GetHashForStringVector_loop char_signed i ret [] = ret"
| "GetHashForStringVector_loop char_signed i ret (s # v) =
     GetHashForStringVector_loop char_signed (i + 1)
       (ucast ((ucast ret :: size_t) + (i + 1) * ucast (GetHashForString char_signed s))) v"

definition GetHashForStringVector :: "bool \<Rightarrow> uint8 list list \<Rightarrow> uint32" where
  "GetHashForStringVector char_signed v = GetHashForStringVector_loop char_signed 0 0 v"

subsection \<open>SetupPatternGenerator\<close>

text \<open>
  \<^verbatim>\<open>uint8_t addr = 0\<close> is incremented once per entry and wraps at 256.
  \<^verbatim>\<open>uint16_t cmd = first | second\<close> is the pattern or-ed with the
  zero-extended delay.
\<close>

fun SetupPatternGenerator_loop ::
  "uint8 \<Rightarrow> (uint16 \<times> uint8) list \<Rightarrow> testboard \<Rightarrow> testboard" where
  "SetupPatternGenerator_loop addr [] tb = tb"
| "SetupPatternGenerator_loop addr (it # rest) tb =
     (let cmd = fst it OR ucast (snd it)
      in SetupPatternGenerator_loop (addr + 1) rest (tb @ [Pg_SetCmd addr cmd]))"

definition SetupPatternGenerator :: "(uint16 \<times> uint8) list \<Rightarrow> testboard \<Rightarrow> testboard" where
  "SetupPatternGenerator pg_setup tb = SetupPatternGenerator_loop 0 pg_setup tb"

text \<open>
  Modelled from the spec: the pattern-generator memory of the device, which
  is not part of the source. The spec describes the program as entries
  "written to consecutive device addresses": \<^verbatim>\<open>Pg_SetCmd(addr, cmd)\<close> stores
  \<open>cmd\<close> at address \<open>addr\<close>, and no other call touches that memory.
\<close>

fun pg_store :: "(nat \<Rightarrow> uint16) \<Rightarrow> tb_call \<Rightarrow> (nat \<Rightarrow> uint16)" where
  "pg_store mem (Pg_SetCmd addr cmd) = mem(unat addr := cmd)"
| "pg_store mem _ = mem"

definition pg_memory :: "testboard \<Rightarrow> (nat \<Rightarrow> uint16) \<Rightarrow> (nat \<Rightarrow> uint16)" where
  "pg_memory tb mem = foldl pg_store mem tb"

fun is_Pg_SetCmd :: "tb_call \<Rightarrow> bool" where
  "is_Pg_SetCmd (Pg_SetCmd addr cmd) = True"
| "is_Pg_SetCmd _ = False"

subsection \<open>Register and DAC settings\<close>

text \<open>
  A \<^verbatim>\<open>std::map<uint8_t,uint8_t>\<close> is a partial function on keys; iterating it
  from \<^verbatim>\<open>begin()\<close> to \<^verbatim>\<open>end()\<close> visits the stored pairs by ascending key.
\<close>

definition map_iterate :: "(uint8 \<rightharpoonup> 'v) \<Rightarrow> (uint8 \<times> 'v) list" where
  "map_iterate m =
     List.map_filter (\<lambda>k. map_option (Pair k) (m k)) (map word_of_nat [0..<256])"

definition rocSetDAC :: "uint8 \<Rightarrow> uint8 \<Rightarrow> uint8 \<Rightarrow> testboard \<Rightarrow> bool \<times> testboard" where
  "rocSetDAC rocId dacId dacValue tb =
     (True, tb @ [roc_I2cAddr rocId, roc_SetDAC dacId dacValue])"

text \<open>The loop returns \<open>False\<close> where the source leaves by \<^verbatim>\<open>return false\<close>.\<close>

fun rocSetDACs_loop ::
  "uint8 \<Rightarrow> (uint8 \<times> uint8) list \<Rightarrow> testboard \<Rightarrow> bool \<times> testboard" where
  "rocSetDACs_loop rocId [] tb = (True, tb)"
| "rocSetDACs_loop rocId (it # rest) tb =
     (case rocSetDAC rocId (fst it) (snd it) tb of
        (ok, tb') \<Rightarrow> if \<not> ok then (False, tb') else rocSetDACs_loop rocId rest tb')"

definition rocSetDACs ::
  "uint8 \<Rightarrow> (uint8 \<rightharpoonup> uint8) \<Rightarrow> testboard \<Rightarrow> bool \<times> testboard" where
  "rocSetDACs rocId dacPairs tb =
     (case rocSetDACs_loop rocId (map_iterate dacPairs) tb of
        (completed, tb') \<Rightarrow>
          if \<not> completed then (False, tb') else (True, tb' @ [Flush]))"

text \<open>
  \<^verbatim>\<open>tbmSetReg\<close> ignores \<^verbatim>\<open>tbmId\<close>: it selects module address 31 and passes
  \<^verbatim>\<open>regId\<close> itself to \<^verbatim>\<open>tbm_Set\<close>; \<^verbatim>\<open>regCore1\<close> and \<^verbatim>\<open>regCore2\<close> are only logged.
\<close>

definition tbmSetReg :: "uint8 \<Rightarrow> uint8 \<Rightarrow> uint8 \<Rightarrow> testboard \<Rightarrow> bool \<times> testboard" where
  "tbmSetReg tbmId regId regValue tb = (True, tb @ [mod_Addr 31, tbm_Set regId regValue])"

fun tbmSetRegs_loop ::
  "uint8 \<Rightarrow> (uint8 \<times> uint8) list \<Rightarrow> testboard \<Rightarrow> bool \<times> testboard" where
  "tbmSetRegs_loop tbmId [] tb = (True, tb)"
| "tbmSetRegs_loop tbmId (it # rest) tb =
     (case tbmSetReg tbmId (fst it) (snd it) tb of
        (ok, tb') \<Rightarrow> if \<not> ok then (False, tb') else tbmSetRegs_loop tbmId rest tb')"

definition tbmSetRegs ::
  "uint8 \<Rightarrow> (uint8 \<rightharpoonup> uint8) \<Rightarrow> testboard \<Rightarrow> bool \<times> testboard" where
  "tbmSetRegs tbmId regPairs tb =
     (case tbmSetRegs_loop tbmId (map_iterate regPairs) tb of
        (completed, tb') \<Rightarrow>
          if \<not> completed then (False, tb') else (True, tb' @ [Flush]))"

subsection \<open>RocSetMask\<close>

text \<open>
  \<^verbatim>\<open>pixelConfig\<close> is declared in a header that is not part of the source; the
  record has the three members \<^verbatim>\<open>RocSetMask\<close> reads (\<^verbatim>\<open>column\<close>, \<^verbatim>\<open>row\<close>,
  \<^verbatim>\<open>trim\<close>), 8 bits each as the corresponding arguments of \<^verbatim>\<open>PixelSetMask\<close>.
  The macros \<^verbatim>\<open>ROC_NUMCOLS\<close> and \<^verbatim>\<open>ROC_NUMROWS\<close> come from \<^verbatim>\<open>constants.h\<close>,
  which is not part of the source either: they are parameters, natural
  numbers whose product is taken to fit the \<^verbatim>\<open>int\<close> arithmetic of the source.
  The argument \<^verbatim>\<open>mask\<close> is \<open>mask_all\<close> here.
\<close>

record pixelConfig =
  column_cfg :: uint8
  row_cfg :: uint8
  trim_cfg :: uint8

text \<open>
  \<^verbatim>\<open>trim[position] = (*pxIt).trim\<close> uses the unchecked \<^verbatim>\<open>operator[]\<close>: a
  position outside the vector is the error \<open>out_of_bounds_write\<close>. The
  vector starts as \<^verbatim>\<open>ROC_NUMCOLS*ROC_NUMROWS\<close> entries of 15.
\<close>

definition position :: "nat \<Rightarrow> pixelConfig \<Rightarrow> nat" where
  "position ROC_NUMROWS px = unat (column_cfg px) * ROC_NUMROWS + unat (row_cfg px)"

fun RocSetMask_trim :: "nat \<Rightarrow> pixelConfig list \<Rightarrow> int16 list \<Rightarrow> hal_error + int16 list" where
  "RocSetMask_trim ROC_NUMROWS [] trim = Inr trim"
| "RocSetMask_trim ROC_NUMROWS (px # rest) trim =
     (if position ROC_NUMROWS px < length trim
      then RocSetMask_trim ROC_NUMROWS rest (trim[position ROC_NUMROWS px := ucast (trim_cfg px)])
      else Inl out_of_bounds_write)"

text \<open>
  \<^verbatim>\<open>for(uint8_t col = 0; col < ROC_NUMCOLS; col++)\<close>: the counter wraps at 256,
  so the loop does not end when \<^verbatim>\<open>ROC_NUMCOLS\<close> exceeds 255; not returning is
  \<open>None\<close>.
\<close>

partial_function (option) RocSetMask_cols :: "nat \<Rightarrow> uint8 \<Rightarrow> testboard \<Rightarrow> testboard option" where
  "RocSetMask_cols ROC_NUMCOLS col tb =
     (if unat col < ROC_NUMCOLS
      then RocSetMask_cols ROC_NUMCOLS (col + 1) (tb @ [roc_Col_Enable col True])
      else Some tb)"

definition RocSetMask ::
  "nat \<Rightarrow> nat \<Rightarrow> uint8 \<Rightarrow> bool \<Rightarrow> pixelConfig list \<Rightarrow> testboard
     \<Rightarrow> (hal_error + testboard) option" where
  "RocSetMask ROC_NUMCOLS ROC_NUMROWS rocid mask_all pixels tb =
     (let tb1 = tb @ [roc_I2cAddr rocid]
      in if mask_all then Some (Inr (tb1 @ [roc_Chip_Mask]))
         else
           (case RocSetMask_trim ROC_NUMROWS pixels (replicate (ROC_NUMCOLS * ROC_NUMROWS) 15) of
              Inl e \<Rightarrow> Some (Inl e)
            | Inr trim \<Rightarrow>
                (case RocSetMask_cols ROC_NUMCOLS 0 tb1 of
                   None \<Rightarrow> None
                 | Some tb2 \<Rightarrow> Some (Inr (tb2 @ [TrimChip trim])))))"

subsection \<open>Calibration maps\<close>

text \<open>
  \<^verbatim>\<open>pixel\<close> is declared in a header that is not part of the source. Its four
  members are those \<^verbatim>\<open>PixelCalibrateMap\<close> assigns; \<^verbatim>\<open>roc_id\<close>, \<^verbatim>\<open>column\<close> and
  \<^verbatim>\<open>row\<close> take \<^verbatim>\<open>uint8_t\<close> arguments and \<^verbatim>\<open>value\<close> takes an \<^verbatim>\<open>int32_t\<close>.
\<close>

record pixel =
  roc_id :: uint8
  column :: uint8
  row :: uint8
  "value" :: int32

text \<open>
  The device's answer to \<^verbatim>\<open>CalibratePixel\<close> is its return value and the two
  reference parameters \<^verbatim>\<open>nReadouts\<close> and \<^verbatim>\<open>PHsum\<close>. The flag mask
  \<^verbatim>\<open>FLAG_INTERNAL_GET_EFFICIENCY\<close> comes from \<^verbatim>\<open>constants.h\<close> and is a parameter.
  The result is the vector behind the returned pointer. The arguments
  \<^verbatim>\<open>column\<close> and \<^verbatim>\<open>row\<close> are \<open>col\<close> and \<open>rw\<close> here.
\<close>

definition PixelCalibrateMap ::
  "int32 \<Rightarrow> uint8 \<Rightarrow> uint8 \<Rightarrow> uint8 \<Rightarrow> int32 list \<Rightarrow> (int32 \<times> int16 \<times> int32) \<Rightarrow> testboard
     \<Rightarrow> hal_error + (pixel list list \<times> testboard)" where
  "PixelCalibrateMap FLAG_INTERNAL_GET_EFFICIENCY rocid col rw parameter answer tb =
     (case at_vec parameter 0 of
        Inl e \<Rightarrow> Inl e
      | Inr flags \<Rightarrow>
     (case at_vec parameter 1 of
        Inl e \<Rightarrow> Inl e
      | Inr nTriggers \<Rightarrow>
     (case answer of (status, nReadouts, PHsum) \<Rightarrow>
        let tb1 = tb @ [roc_I2cAddr rocid];
            tb2 = tb1 @ [CalibratePixel nTriggers col rw];
            newpixel = \<lparr>roc_id = rocid, column = col, row = rw,
                        value = (if flags AND FLAG_INTERNAL_GET_EFFICIENCY \<noteq> 0
                                 then scast nReadouts else PHsum)\<rparr>;
            data = [newpixel]
        in Inr ([data], tb2))))"

text \<open>
  The constructor \<^verbatim>\<open>pixel(address, data)\<close> belongs to the same missing header
  and is the parameter \<open>pixel_of\<close>; an \<^verbatim>\<open>int16_t\<close> readout count reaches it
  sign-extended. The loop walks \<^verbatim>\<open>address\<close> and reads the other vector at the
  iterator's index with \<^verbatim>\<open>at\<close>.
\<close>

fun RocCalibrateMap_fill ::
  "(uint32 \<Rightarrow> int32 \<Rightarrow> pixel) \<Rightarrow> bool \<Rightarrow> int16 list \<Rightarrow> int32 list \<Rightarrow> uint32 list \<Rightarrow> nat
     \<Rightarrow> pixel list \<Rightarrow> hal_error + pixel list" where
  "RocCalibrateMap_fill pixel_of efficiency nReadouts PHsum [] i data = Inr data"
| "RocCalibrateMap_fill pixel_of efficiency nReadouts PHsum (it # rest) i data =
     (if efficiency
      then (case at_vec nReadouts i of
              Inl e \<Rightarrow> Inl e
            | Inr n \<Rightarrow> RocCalibrateMap_fill pixel_of efficiency nReadouts PHsum rest (i + 1)
                        (data @ [pixel_of it (scast n)]))
      else (case at_vec PHsum i of
              Inl e \<Rightarrow> Inl e
            | Inr ph \<Rightarrow> RocCalibrateMap_fill pixel_of efficiency nReadouts PHsum rest (i + 1)
                         (data @ [pixel_of it ph])))"

definition RocCalibrateMap ::
  "int32 \<Rightarrow> (uint32 \<Rightarrow> int32 \<Rightarrow> pixel) \<Rightarrow> uint8 \<Rightarrow> int32 list
     \<Rightarrow> (int32 \<times> int16 list \<times> int32 list \<times> uint32 list) \<Rightarrow> testboard
     \<Rightarrow> hal_error + (pixel list list \<times> testboard)" where
  "RocCalibrateMap FLAG_INTERNAL_GET_EFFICIENCY pixel_of rocid parameter answer tb =
     (case at_vec parameter 0 of
        Inl e \<Rightarrow> Inl e
      | Inr flags \<Rightarrow>
     (case at_vec parameter 1 of
        Inl e \<Rightarrow> Inl e
      | Inr nTriggers \<Rightarrow>
     (case answer of (status, nReadouts, PHsum, address) \<Rightarrow>
        let tb1 = tb @ [roc_I2cAddr rocid];
            tb2 = tb1 @ [CalibrateMap nTriggers];
            n = length nReadouts; p = length PHsum; a = length address
        in if a \<noteq> n \<or> a \<noteq> p \<or> n \<noteq> p then Inr ([], tb2)
           else (case RocCalibrateMap_fill pixel_of (flags AND FLAG_INTERNAL_GET_EFFICIENCY \<noteq> 0)
                        nReadouts PHsum address 0 [] of
                   Inl e \<Rightarrow> Inl e
                 | Inr data \<Rightarrow> Inr ([data], tb2)))))"

subsection \<open>daqRead\<close>

text \<open>
  The device's answers: the buffer size \<^verbatim>\<open>Daq_GetSize(channel)\<close> reports, and
  the words \<^verbatim>\<open>Daq_Read(data, blocksize, availsize, channel)\<close> puts into the
  (empty) vector it is given. The status and the remaining-size output only
  feed the log. When \<^verbatim>\<open>nTBMs\<close> is 0, \<^verbatim>\<open>buffersize_ch1\<close> is never set and never
  read.
\<close>

record daq_device =
  GetSize_answer :: "uint8 \<Rightarrow> uint32"
  Read_answer :: "uint32 \<Rightarrow> uint8 \<Rightarrow> uint16 list"

definition daqRead :: "uint8 \<Rightarrow> daq_device \<Rightarrow> testboard \<Rightarrow> uint16 list \<times> testboard" where
  "daqRead nTBMs dev tb =
     (let tb1 = tb @ [Daq_GetSize 0];
          buffersize_ch0 = GetSize_answer dev 0;
          tb2 = (if nTBMs > 0 then tb1 @ [Daq_GetSize 1] else tb1);
          tb3 = tb2 @ [Daq_Read buffersize_ch0 0];
          data = Read_answer dev buffersize_ch0 0
      in if nTBMs > 0
         then (let buffersize_ch1 = GetSize_answer dev 1;
                   tb4 = tb3 @ [Daq_Read buffersize_ch1 1];
                   data1 = Read_answer dev buffersize_ch1 1
               in (data @ data1, tb4))
         else (data, tb3))"

section \<open>Properties\<close>

subsection \<open>Hashes\<close>

text \<open>
  Claim C10. For every string, \<^verbatim>\<open>GetHashForString\<close> returns a value strictly
  below 86969; the multiplications and the exclusive or are those of 32-bit
  words, which wrap modulo \<open>2 ^ 32\<close>. The hash of the empty string is 31 and
  \<^verbatim>\<open>GetHashForStringVector\<close> of the empty vector is 0. This holds whether
  \<^verbatim>\<open>char\<close> is signed or not.
\<close>

theorem GetHashForString_bound:
  "unat (GetHashForString char_signed s) < 86969
   \<and> GetHashForString char_signed [] = 31
   \<and> GetHashForStringVector char_signed [] = 0"
proof -
  have "unat (GetHashForString char_signed s) < 86969"
    unfolding GetHashForString_def by (simp add: unat_mod_distrib)
  moreover have "GetHashForString char_signed [] = 31"
    by (simp add: GetHashForString_def)
  moreover have "GetHashForStringVector char_signed [] = 0"
    by (simp add: GetHashForStringVector_def)
  ultimately show ?thesis by simp
qed

text \<open>The hash of \<^verbatim>\<open>"hi"\<close>, where the second multiplication wraps.\<close>

lemma GetHashForString_hi: "GetHashForString char_signed [104, 105] = 78006"
  by (simp add: GetHashForString_def char_promote_def)

subsection \<open>Pattern generator\<close>

lemma SetupPatternGenerator_loop_calls:
  "SetupPatternGenerator_loop addr pg tb =
     tb @ map (\<lambda>k. Pg_SetCmd (addr + word_of_nat k) (fst (pg ! k) OR ucast (snd (pg ! k))))
            [0..<length pg]"
proof (induction pg arbitrary: addr tb)
  case Nil
  then show ?case by simp
next
  case (Cons it rest)
  have "[0..<length (it # rest)] = 0 # map Suc [0..<length rest]"
    by (simp add: upt_conv_Cons map_Suc_upt del: upt_Suc)
  then show ?case
    using Cons.IH [of "addr + 1" "tb @ [Pg_SetCmd addr (fst it OR ucast (snd it))]"]
    by (simp add: Let_def comp_def add.assoc del: upt_Suc)
qed

lemma SetupPatternGenerator_calls:
  "SetupPatternGenerator pg tb =
     tb @ map (\<lambda>k. Pg_SetCmd (word_of_nat k) (fst (pg ! k) OR ucast (snd (pg ! k))))
            [0..<length pg]"
  by (simp add: SetupPatternGenerator_def SetupPatternGenerator_loop_calls)

lemma pg_memory_append: "pg_memory (tb @ cs) mem = pg_memory cs (pg_memory tb mem)"
  by (simp add: pg_memory_def)

lemma pg_memory_untouched:
  "\<forall>c \<in> set cs. \<forall>addr cmd. c = Pg_SetCmd addr cmd \<longrightarrow> unat addr \<noteq> a \<Longrightarrow>
   pg_memory cs mem a = mem a"
proof (induction cs arbitrary: mem)
  case Nil
  then show ?case by (simp add: pg_memory_def)
next
  case (Cons c cs)
  have step: "pg_store mem c a = mem a"
    using Cons.prems by (cases c) auto
  have "pg_memory (c # cs) mem a = pg_memory cs (pg_store mem c) a"
    by (simp add: pg_memory_def)
  also have "\<dots> = pg_store mem c a"
    using Cons.prems by (intro Cons.IH) simp
  finally show ?case using step by simp
qed

text \<open>
  Claim C1, amended. \<^verbatim>\<open>SetupPatternGenerator\<close> issues one \<^verbatim>\<open>Pg_SetCmd\<close> per
  entry, in input order, and nothing else; the command word of an entry is
  the bitwise or of its 16-bit pattern and its zero-extended 8-bit delay. The
  address counter is a \<^verbatim>\<open>uint8_t\<close>: the k-th entry (0-based) goes to address
  \<open>k mod 256\<close>, which is \<open>k\<close> for every program of at most 256 entries.
\<close>

theorem SetupPatternGenerator_writes:
  "SetupPatternGenerator pg_setup tb =
     tb @ map (\<lambda>k. Pg_SetCmd (word_of_nat k)
                       (fst (pg_setup ! k) OR ucast (snd (pg_setup ! k))))
            [0..<length pg_setup]
   \<and> (\<forall>k. unat (word_of_nat k :: uint8) = k mod 256)"
  by (simp add: SetupPatternGenerator_calls unat_of_nat)

text \<open>
  The claim as stated (the k-th entry is written to address k, for every list)
  fails at a program of 257 entries: entry 256 is written to address 0.
\<close>

theorem SetupPatternGenerator_wraps:
  "SetupPatternGenerator (replicate 257 (0, 0)) [] ! 256 = Pg_SetCmd 0 0
   \<and> unat (0 :: uint8) \<noteq> 256"
  by code_simp

text \<open>
  Claim C7. \<^verbatim>\<open>SetupPatternGenerator\<close> keeps the calls issued before it, adds
  exactly \<^verbatim>\<open>pg_setup.size()\<close> calls, all of them \<^verbatim>\<open>Pg_SetCmd\<close> (so no
  terminating entry follows the provided ones) and each to an address below
  \<^verbatim>\<open>pg_setup.size()\<close>, and leaves every device address at or beyond
  \<^verbatim>\<open>pg_setup.size()\<close> as it was.
\<close>

theorem SetupPatternGenerator_frame:
  "take (length tb) (SetupPatternGenerator pg_setup tb) = tb
   \<and> length (SetupPatternGenerator pg_setup tb) = length tb + length pg_setup
   \<and> (\<forall>c \<in> set (drop (length tb) (SetupPatternGenerator pg_setup tb)). is_Pg_SetCmd c)
   \<and> (\<forall>addr cmd. Pg_SetCmd addr cmd \<in> set (drop (length tb) (SetupPatternGenerator pg_setup tb))
         \<longrightarrow> unat addr < length pg_setup)
   \<and> (\<forall>a. length pg_setup \<le> a \<longrightarrow>
         pg_memory (SetupPatternGenerator pg_setup tb) mem a = pg_memory tb mem a)"
proof -
  let ?cs = "map (\<lambda>k. Pg_SetCmd (word_of_nat k)
                         (fst (pg_setup ! k) OR ucast (snd (pg_setup ! k))))
               [0..<length pg_setup]"
  have eq: "SetupPatternGenerator pg_setup tb = tb @ ?cs"
    by (rule SetupPatternGenerator_calls)
  have below: "unat (word_of_nat k :: uint8) < length pg_setup" if "k < length pg_setup" for k
  proof -
    have "unat (word_of_nat k :: uint8) \<le> k"
      by (simp add: unat_of_nat)
    with that show ?thesis by simp
  qed
  then have addrs: "\<forall>addr cmd. Pg_SetCmd addr cmd \<in> set (drop (length tb) (tb @ ?cs))
      \<longrightarrow> unat addr < length pg_setup"
    by auto
  have frame: "pg_memory (tb @ ?cs) mem a = pg_memory tb mem a"
    if "length pg_setup \<le> a" for a
  proof -
    have "unat (word_of_nat k :: uint8) \<noteq> a" if "k < length pg_setup" for k
      using below [OF that] \<open>length pg_setup \<le> a\<close> by simp
    then have "\<forall>c \<in> set ?cs. \<forall>addr cmd. c = Pg_SetCmd addr cmd \<longrightarrow> unat addr \<noteq> a"
      by auto
    then have "pg_memory ?cs (pg_memory tb mem) a = pg_memory tb mem a"
      by (rule pg_memory_untouched)
    then show ?thesis by (simp add: pg_memory_append)
  qed
  have "take (length tb) (tb @ ?cs) = tb" by simp
  moreover have "length (tb @ ?cs) = length tb + length pg_setup" by simp
  moreover have "\<forall>c \<in> set (drop (length tb) (tb @ ?cs)). is_Pg_SetCmd c" by auto
  ultimately show ?thesis using frame addrs unfolding eq by blast
qed

theorem SetupPatternGenerator_frame_witness:
  "length (SetupPatternGenerator [(1, 2), (3, 0)] []) = 2
   \<and> is_Pg_SetCmd (SetupPatternGenerator [(1, 2), (3, 0)] [] ! 1)
   \<and> pg_memory (SetupPatternGenerator [(1, 2), (3, 0)] []) (\<lambda>a. 7) 2 = 7"
proof -
  have mem: "Pg_SetCmd 1 3 \<in> set (drop (length []) (SetupPatternGenerator [(1, 2), (3, 0)] []))"
    by (simp add: SetupPatternGenerator_def)
  have idx: "SetupPatternGenerator [(1, 2), (3, 0)] [] ! 1 = Pg_SetCmd 1 3"
    by (simp add: SetupPatternGenerator_def)
  have le: "length [(1 :: uint16, 2 :: uint8), (3, 0)] \<le> 2" by simp
  show ?thesis
    using SetupPatternGenerator_frame [of "[]" "[(1, 2), (3, 0)]" "\<lambda>a. 7"] mem idx le
    by (simp add: pg_memory_def)
qed

subsection \<open>Register and DAC settings\<close>

lemma all_keys_ascending: "sorted_wrt (<) (map word_of_nat [0..<256] :: uint8 list)"
proof -
  have "(word_of_nat i :: uint8) < word_of_nat j" if "i < j" "j < 256" for i j
    using that by (simp add: word_less_nat_alt unat_of_nat)
  then show ?thesis
    by (simp add: sorted_wrt_map sorted_wrt_iff_nth_less del: upt_Suc)
qed

lemma all_keys_complete: "k \<in> set (map word_of_nat [0..<256] :: uint8 list)"
proof -
  have "unat k < 256" using unsigned_less [of k] by simp
  then have "unat k \<in> set [0..<256]" by simp
  then have "word_of_nat (unat k) \<in> set (map word_of_nat [0..<256] :: uint8 list)"
    unfolding set_map by (rule imageI)
  then show ?thesis by simp
qed

lemma map_filter_keys:
  "map fst (List.map_filter (\<lambda>k. map_option (Pair k) (m k)) ks) =
     filter (\<lambda>k. m k \<noteq> None) ks"
  by (induction ks) (auto split: option.splits)

lemma map_filter_pairs:
  "set (List.map_filter (\<lambda>k. map_option (Pair k) (m k)) ks) =
     {(k, v). k \<in> set ks \<and> m k = Some v}"
  by (induction ks) (auto split: option.splits)

lemma map_iterate_ascending: "sorted_wrt (<) (map fst (map_iterate m))"
  unfolding map_iterate_def map_filter_keys
  by (rule sorted_wrt_filter) (rule all_keys_ascending)

lemma map_iterate_pairs: "set (map_iterate m) = {(k, v). m k = Some v}"
  unfolding map_iterate_def map_filter_pairs using all_keys_complete by simp

lemma rocSetDACs_loop_calls:
  "rocSetDACs_loop rocId its tb =
     (True, tb @ concat (map (\<lambda>it. [roc_I2cAddr rocId, roc_SetDAC (fst it) (snd it)]) its))"
  by (induction its arbitrary: tb) (simp_all add: rocSetDAC_def)

lemma tbmSetRegs_loop_calls:
  "tbmSetRegs_loop tbmId its tb =
     (True, tb @ concat (map (\<lambda>it. [mod_Addr 31, tbm_Set (fst it) (snd it)]) its))"
  by (induction its arbitrary: tb) (simp_all add: tbmSetReg_def)

text \<open>
  Claim C3. A DAC setting is a pair of an 8-bit key and an 8-bit value. For
  every map, \<^verbatim>\<open>rocSetDACs\<close> issues, for each stored pair by ascending key,
  \<^verbatim>\<open>roc_I2cAddr(rocId)\<close> followed by \<^verbatim>\<open>roc_SetDAC(key, value)\<close>, then
  \<^verbatim>\<open>Flush\<close>, and returns. The pairs visited are exactly those of the map,
  their keys strictly ascending.
\<close>

theorem rocSetDACs_calls:
  "rocSetDACs rocId dacPairs tb =
     (True, tb @ concat (map (\<lambda>it. [roc_I2cAddr rocId, roc_SetDAC (fst it) (snd it)])
                          (map_iterate dacPairs)) @ [Flush])
   \<and> sorted_wrt (<) (map fst (map_iterate dacPairs))
   \<and> set (map_iterate dacPairs) = {(k, v). dacPairs k = Some v}"
  by (simp add: rocSetDACs_def rocSetDACs_loop_calls map_iterate_ascending map_iterate_pairs)

text \<open>A map filled in descending key order is still walked by ascending key.\<close>

lemma rocSetDACs_example:
  "rocSetDACs 3 [5 \<mapsto> 1, 2 \<mapsto> 9] [] =
     (True, [roc_I2cAddr 3, roc_SetDAC 2 9, roc_I2cAddr 3, roc_SetDAC 5 1, Flush])"
  by code_simp

text \<open>
  Claim C8. \<^verbatim>\<open>rocSetDACs\<close> and \<^verbatim>\<open>tbmSetRegs\<close> return true for every map: the
  helpers \<^verbatim>\<open>rocSetDAC\<close> and \<^verbatim>\<open>tbmSetReg\<close> return true for every argument, so
  the loops never leave through \<^verbatim>\<open>return false\<close>.
\<close>

theorem rocSetDACs_tbmSetRegs_true:
  "fst (rocSetDACs rocId dacPairs tb) = True
   \<and> fst (tbmSetRegs tbmId regPairs tb) = True
   \<and> fst (rocSetDAC rocId dacId dacValue tb) = True
   \<and> fst (tbmSetReg tbmId regId regValue tb) = True
   \<and> fst (rocSetDACs_loop rocId its tb) = True
   \<and> fst (tbmSetRegs_loop tbmId its tb) = True"
  by (simp add: rocSetDACs_def tbmSetRegs_def rocSetDAC_def tbmSetReg_def
      rocSetDACs_loop_calls tbmSetRegs_loop_calls)

subsection \<open>Mask and trim\<close>

lemma RocSetMask_cols_calls:
  "unat col \<le> n \<Longrightarrow> n < 256 \<Longrightarrow>
   RocSetMask_cols n col tb =
     Some (tb @ map (\<lambda>c. roc_Col_Enable (word_of_nat c) True) [unat col..<n])"
proof (induction "n - unat col" arbitrary: col tb)
  case 0
  then have "unat col = n" by simp
  then show ?case by (subst RocSetMask_cols.simps) simp
next
  case (Suc d)
  then have lt: "unat col < n" by simp
  with Suc.prems have next_col: "unat (col + 1) = Suc (unat col)"
    by (simp add: unat_word_ariths)
  have "RocSetMask_cols n col tb = RocSetMask_cols n (col + 1) (tb @ [roc_Col_Enable col True])"
    using lt by (subst RocSetMask_cols.simps) simp
  also have "\<dots> = Some ((tb @ [roc_Col_Enable col True]) @
      map (\<lambda>c. roc_Col_Enable (word_of_nat c) True) [unat (col + 1)..<n])"
    using Suc.hyps(2) Suc.prems lt next_col by (intro Suc.hyps(1)) simp_all
  also have "\<dots> = Some (tb @ map (\<lambda>c. roc_Col_Enable (word_of_nat c) True) [unat col..<n])"
    using lt by (simp add: next_col upt_conv_Cons)
  finally show ?case .
qed



text \<open>With 256 columns or more the column loop does not return.\<close>

lemma RocSetMask_cols_returns_only_below_256:
  assumes "RocSetMask_cols n col tb = Some y"
  shows "n < 256"
proof (rule RocSetMask_cols.raw_induct [where P = "\<lambda>m c t z. m < 256"])
  show "RocSetMask_cols n col tb = Some y" by fact
next
  fix f :: "nat \<Rightarrow> uint8 \<Rightarrow> testboard \<Rightarrow> testboard option" and m c t z
  assume IH: "\<And>m c t z. f m c t = Some z \<Longrightarrow> m < 256"
    and body: "(if unat c < m then f m (c + 1) (t @ [roc_Col_Enable c True]) else Some t) = Some z"
  show "m < 256"
  proof (rule ccontr)
    assume big: "\<not> m < 256"
    have "unat c < 256" using unsigned_less [of c] by simp
    with big have "unat c < m" by simp
    with body have "f m (c + 1) (t @ [roc_Col_Enable c True]) = Some z" by simp
    from IH [OF this] big show False by simp
  qed
qed

lemma find_app:
  "find P (xs @ ys) = (case find P xs of None \<Rightarrow> find P ys | Some x \<Rightarrow> Some x)"
  by (induction xs) auto

lemma RocSetMask_trim_entries:
  "\<forall>px \<in> set pixels. position nr px < length trim \<Longrightarrow>
   \<exists>t. RocSetMask_trim nr pixels trim = Inr t \<and> length t = length trim \<and>
       (\<forall>i < length trim. t ! i =
          (case find (\<lambda>px. position nr px = i) (rev pixels) of
             None \<Rightarrow> trim ! i | Some px \<Rightarrow> ucast (trim_cfg px)))"
proof (induction pixels arbitrary: trim)
  case Nil
  then show ?case by simp
next
  case (Cons px rest)
  let ?trim' = "trim[position nr px := ucast (trim_cfg px)]"
  have "\<forall>q \<in> set rest. position nr q < length ?trim'" using Cons.prems by simp
  from Cons.IH [OF this] obtain t where
    t: "RocSetMask_trim nr rest ?trim' = Inr t" "length t = length ?trim'"
    "\<forall>i < length ?trim'. t ! i =
          (case find (\<lambda>px. position nr px = i) (rev rest) of
             None \<Rightarrow> ?trim' ! i | Some px \<Rightarrow> ucast (trim_cfg px))" by blast
  have "RocSetMask_trim nr (px # rest) trim = Inr t" using Cons.prems t(1) by simp
  moreover have "length t = length trim" using t(2) by simp
  moreover have "t ! i = (case find (\<lambda>px. position nr px = i) (rev (px # rest)) of
             None \<Rightarrow> trim ! i | Some px \<Rightarrow> ucast (trim_cfg px))" if "i < length trim" for i
    using t(3) that by (auto simp: find_app nth_list_update split: option.splits)
  ultimately show ?case by blast
qed

lemma position_inj:
  fixes r r' c c' nr :: nat
  assumes "r < nr" "r' < nr"
  shows "c * nr + r = c' * nr + r' \<longleftrightarrow> c = c' \<and> r = r'"
proof
  assume eq: "c * nr + r = c' * nr + r'"
  have "(c * nr + r) div nr = c" "(c' * nr + r') div nr = c'"
    using assms by simp_all
  with eq have "c = c'" by simp
  with eq show "c = c' \<and> r = r'" by simp
qed simp


lemma position_bound:
  fixes c r nc nr :: nat
  assumes "c < nc" "r < nr"
  shows "c * nr + r < nc * nr"
proof -
  have "c * nr + r < Suc c * nr" using assms(2) by simp
  also have "\<dots> \<le> nc * nr" using assms(1) by (intro mult_le_mono1) simp
  finally show ?thesis .
qed

text \<open>
  Claim C4, amended. For \<^verbatim>\<open>RocSetMask(rocid, false, pixels)\<close> with every listed
  pixel inside the chip (\<^verbatim>\<open>column < ROC_NUMCOLS\<close>, \<^verbatim>\<open>row < ROC_NUMROWS\<close>): the
  function selects the chip, enables every column \<open>0 .. ROC_NUMCOLS - 1\<close> in
  ascending order and then calls \<^verbatim>\<open>TrimChip\<close> once; the trim vector has
  \<^verbatim>\<open>ROC_NUMCOLS * ROC_NUMROWS\<close> entries; the entry at
  \<^verbatim>\<open>column * ROC_NUMROWS + row\<close> is the trim value of the last listed pixel at
  that column and row, and 15 when no listed pixel is there. \<^verbatim>\<open>ROC_NUMCOLS\<close> is
  below 256, as the \<^verbatim>\<open>uint8_t\<close> column counter needs to leave its loop.
\<close>

theorem RocSetMask_unmask_trim:
  assumes cols: "ROC_NUMCOLS < 256"
    and listed: "\<forall>px \<in> set pixels.
           unat (column_cfg px) < ROC_NUMCOLS \<and> unat (row_cfg px) < ROC_NUMROWS"
  shows "\<exists>trim.
     RocSetMask ROC_NUMCOLS ROC_NUMROWS rocid False pixels tb =
       Some (Inr (tb @ [roc_I2cAddr rocid]
                     @ map (\<lambda>c. roc_Col_Enable (word_of_nat c) True) [0..<ROC_NUMCOLS]
                     @ [TrimChip trim]))
     \<and> length trim = ROC_NUMCOLS * ROC_NUMROWS
     \<and> (\<forall>c r. c < ROC_NUMCOLS \<longrightarrow> r < ROC_NUMROWS \<longrightarrow>
           trim ! (c * ROC_NUMROWS + r) =
             (case find (\<lambda>px. unat (column_cfg px) = c \<and> unat (row_cfg px) = r) (rev pixels) of
                None \<Rightarrow> 15
              | Some px \<Rightarrow> ucast (trim_cfg px)))"
proof -
  let ?n = "ROC_NUMCOLS * ROC_NUMROWS"
  have inside: "\<forall>px \<in> set pixels. position ROC_NUMROWS px < length (replicate ?n (15 :: int16))"
    using listed by (auto simp: position_def intro: position_bound)
  from RocSetMask_trim_entries [OF inside] obtain trim where
    run: "RocSetMask_trim ROC_NUMROWS pixels (replicate ?n 15) = Inr trim"
    and len: "length trim = ?n"
    and entries: "\<forall>i < ?n. trim ! i =
          (case find (\<lambda>px. position ROC_NUMROWS px = i) (rev pixels) of
             None \<Rightarrow> replicate ?n 15 ! i | Some px \<Rightarrow> ucast (trim_cfg px))"
    by auto
  have loop: "RocSetMask_cols ROC_NUMCOLS 0 (tb @ [roc_I2cAddr rocid]) =
      Some ((tb @ [roc_I2cAddr rocid])
              @ map (\<lambda>c. roc_Col_Enable (word_of_nat c) True) [unat (0 :: uint8)..<ROC_NUMCOLS])"
    using cols by (intro RocSetMask_cols_calls) simp_all
  have call: "RocSetMask ROC_NUMCOLS ROC_NUMROWS rocid False pixels tb =
       Some (Inr (tb @ [roc_I2cAddr rocid]
                     @ map (\<lambda>c. roc_Col_Enable (word_of_nat c) True) [0..<ROC_NUMCOLS]
                     @ [TrimChip trim]))"
    using run loop by (simp add: RocSetMask_def)
  have entry: "trim ! (c * ROC_NUMROWS + r) =
             (case find (\<lambda>px. unat (column_cfg px) = c \<and> unat (row_cfg px) = r) (rev pixels) of
                None \<Rightarrow> 15
              | Some px \<Rightarrow> ucast (trim_cfg px))"
    if c: "c < ROC_NUMCOLS" and r: "r < ROC_NUMROWS" for c r
  proof -
    have i: "c * ROC_NUMROWS + r < ?n" using c r by (rule position_bound)
    have same: "find (\<lambda>px. position ROC_NUMROWS px = c * ROC_NUMROWS + r) (rev pixels) =
        find (\<lambda>px. unat (column_cfg px) = c \<and> unat (row_cfg px) = r) (rev pixels)"
    proof (rule find_cong [OF refl])
      fix px assume "px \<in> set (rev pixels)"
      then have "unat (row_cfg px) < ROC_NUMROWS" using listed by simp
      then show "(position ROC_NUMROWS px = c * ROC_NUMROWS + r) =
          (unat (column_cfg px) = c \<and> unat (row_cfg px) = r)"
        unfolding position_def using r by (rule position_inj)
    qed
    have dflt: "replicate ?n (15 :: int16) ! (c * ROC_NUMROWS + r) = 15"
      using i by simp
    show ?thesis
      using entries [rule_format, OF i] by (simp add: same dflt split: option.splits)
  qed
  show ?thesis using call len entry by blast
qed

lemma replicate_numeral_Cons: "replicate 4160 x = x # replicate 4159 x"
  using replicate_Suc [of 4159 x] by simp

text \<open>
  The claim as stated (the entry equals the trim value of the listed pixel at
  that position, for every listed pixel) fails when a position is listed
  twice: the later entry overwrites the earlier one. With 52 columns and 80
  rows and the pixel (0, 0) listed with trim 1 and then with trim 2, entry 0
  of the vector is 2.
\<close>

theorem RocSetMask_duplicate_pixel:
  "RocSetMask 52 80 0 False
     [\<lparr>column_cfg = 0, row_cfg = 0, trim_cfg = 1\<rparr>, \<lparr>column_cfg = 0, row_cfg = 0, trim_cfg = 2\<rparr>] [] =
     Some (Inr (roc_I2cAddr 0 # map (\<lambda>c. roc_Col_Enable (word_of_nat c) True) [0..<52]
                  @ [TrimChip (2 # replicate 4159 15)]))
   \<and> (2 # replicate 4159 15 :: int16 list) ! position 80 \<lparr>column_cfg = 0, row_cfg = 0, trim_cfg = 1\<rparr>
       \<noteq> ucast (trim_cfg \<lparr>column_cfg = 0, row_cfg = 0, trim_cfg = 1\<rparr>)"
proof -
  have loop: "RocSetMask_cols 52 0 [roc_I2cAddr 0] =
      Some ([roc_I2cAddr 0] @ map (\<lambda>c. roc_Col_Enable (word_of_nat c) True) [unat (0 :: uint8)..<52])"
    by (intro RocSetMask_cols_calls) simp_all
  show ?thesis
    using loop by (simp add: RocSetMask_def position_def replicate_numeral_Cons del: upt_Suc)
qed

theorem RocSetMask_unmask_trim_witness:
  "\<exists>trim.
     RocSetMask 52 80 0 False [\<lparr>column_cfg = 1, row_cfg = 2, trim_cfg = 7\<rparr>] [] =
       Some (Inr ([] @ [roc_I2cAddr 0]
                     @ map (\<lambda>c. roc_Col_Enable (word_of_nat c) True) [0..<52]
                     @ [TrimChip trim]))
     \<and> length trim = 52 * 80
     \<and> trim ! (1 * 80 + 2) = 7
     \<and> trim ! (0 * 80 + 0) = 15"
proof -
  have cols: "(52 :: nat) < 256" by simp
  have listed: "\<forall>px \<in> set [\<lparr>column_cfg = 1, row_cfg = 2, trim_cfg = 7\<rparr>].
      unat (column_cfg px) < 52 \<and> unat (row_cfg px) < 80" by simp
  from RocSetMask_unmask_trim [OF cols listed, of 0 "[]"] obtain trim where
    t: "RocSetMask 52 80 0 False [\<lparr>column_cfg = 1, row_cfg = 2, trim_cfg = 7\<rparr>] [] =
       Some (Inr ([] @ [roc_I2cAddr 0]
                     @ map (\<lambda>c. roc_Col_Enable (word_of_nat c) True) [0..<52]
                     @ [TrimChip trim]))"
      "length trim = 52 * 80"
      "\<forall>c r. c < 52 \<longrightarrow> r < 80 \<longrightarrow>
           trim ! (c * 80 + r) =
             (case find (\<lambda>px. unat (column_cfg px) = c \<and> unat (row_cfg px) = r)
                     (rev [\<lparr>column_cfg = 1, row_cfg = 2, trim_cfg = 7\<rparr>]) of
                None \<Rightarrow> 15
              | Some px \<Rightarrow> ucast (trim_cfg px))"
    by blast
  have "trim ! (1 * 80 + 2) = 7"
    using t(3) [rule_format, of 1 2] by simp
  moreover have "trim ! (0 * 80 + 0) = 15"
    using t(3) [rule_format, of 0 0] by simp
  ultimately show ?thesis using t(1,2) by blast
qed


subsection \<open>Calibration maps and data acquisition\<close>

lemma sint_scast_16_32: "sint (scast (x :: 16 word) :: 32 word) = sint x"
  by (rule sint_up_scast) (simp add: is_up)

lemma RocCalibrateMap_fill_pixels:
  "i + length addrs \<le> length nR \<Longrightarrow> i + length addrs \<le> length ph \<Longrightarrow>
   RocCalibrateMap_fill pixel_of eff nR ph addrs i data =
     Inr (data @ map (\<lambda>k. pixel_of (addrs ! k)
                           (if eff then scast (nR ! (i + k)) else ph ! (i + k)))
                  [0..<length addrs])"
proof (induction addrs arbitrary: i data)
  case Nil
  then show ?case by simp
next
  case (Cons it rest)
  have upt: "[0..<Suc (length rest)] = 0 # map Suc [0..<length rest]"
    by (simp add: upt_conv_Cons map_Suc_upt del: upt_Suc)
  have ih: "RocCalibrateMap_fill pixel_of eff nR ph rest (Suc i) d =
     Inr (d @ map (\<lambda>k. pixel_of (rest ! k)
                           (if eff then scast (nR ! (Suc (i + k))) else ph ! (Suc (i + k))))
                  [0..<length rest])" for d
    using Cons.prems Cons.IH [of "Suc i" d] by simp
  show ?case
  proof (cases eff)
    case True
    with Cons.prems ih show ?thesis
      by (simp add: at_vec_def upt comp_def del: upt_Suc)
  next
    case False
    with Cons.prems ih show ?thesis
      by (simp add: at_vec_def upt comp_def del: upt_Suc)
  qed
qed

text \<open>
  With fewer than two parameters \<^verbatim>\<open>parameter.at\<close> throws before any remote
  call is issued.
\<close>

lemma calibrate_short_parameter:
  assumes "length parameter < 2"
  shows "PixelCalibrateMap flag rocid col rw parameter answer tb = Inl out_of_range"
    and "RocCalibrateMap flag pixel_of rocid parameter answer' tb = Inl out_of_range"
  using assms by (simp_all add: PixelCalibrateMap_def RocCalibrateMap_def at_vec_def)

text \<open>
  Claim C2. For \<^verbatim>\<open>PixelCalibrateMap(rocid, column, row, parameter)\<close> with at
  least two parameters, the result holds exactly one inner vector with exactly
  one pixel; its column, row and chip identifier are the arguments, and its
  value is the readout count \<^verbatim>\<open>nReadouts\<close> when \<^verbatim>\<open>parameter[0]\<close> has
  \<^verbatim>\<open>FLAG_INTERNAL_GET_EFFICIENCY\<close> set and the pulse-height sum \<^verbatim>\<open>PHsum\<close>
  otherwise. The calls issued are \<^verbatim>\<open>roc_I2cAddr\<close> and \<^verbatim>\<open>CalibratePixel\<close>.
\<close>

theorem PixelCalibrateMap_result:
  assumes "2 \<le> length parameter"
  shows "\<exists>px.
     PixelCalibrateMap FLAG_INTERNAL_GET_EFFICIENCY rocid col rw parameter
         (status, nReadouts, PHsum) tb =
       Inr ([[px]], tb @ [roc_I2cAddr rocid, CalibratePixel (parameter ! 1) col rw])
     \<and> column px = col \<and> row px = rw \<and> roc_id px = rocid
     \<and> sint (value px) =
         (if parameter ! 0 AND FLAG_INTERNAL_GET_EFFICIENCY \<noteq> 0
          then sint nReadouts else sint PHsum)"
proof -
  from assms have "parameter \<noteq> []" by auto
  with assms show ?thesis
    by (simp add: PixelCalibrateMap_def at_vec_def Let_def sint_scast_16_32)
qed

theorem PixelCalibrateMap_result_witness:
  "\<exists>px.
     PixelCalibrateMap 2 1 2 3 [2, 10] (0, - 5, 77) [] =
       Inr ([[px]], [roc_I2cAddr 1, CalibratePixel 10 2 3])
     \<and> column px = 2 \<and> row px = 3 \<and> roc_id px = 1 \<and> sint (value px) = - 5"
proof -
  have len: "2 \<le> length [2, 10 :: int32]" by simp
  show ?thesis
    using PixelCalibrateMap_result [OF len, of 2 1 2 3 0 "- 5" 77 "[]"] by simp
qed

text \<open>
  Claim C9. In \<^verbatim>\<open>RocCalibrateMap\<close>, once the device has answered (the call is
  issued when \<^verbatim>\<open>parameter\<close> has its two entries): if the three vectors
  \<^verbatim>\<open>nReadouts\<close>, \<^verbatim>\<open>PHsum\<close> and \<^verbatim>\<open>address\<close> do not all have the same length,
  the result is empty; otherwise it is exactly one inner vector with one pixel
  per entry of \<^verbatim>\<open>address\<close>, in order, built from that address and the entry of
  \<^verbatim>\<open>nReadouts\<close> at the same index when \<^verbatim>\<open>FLAG_INTERNAL_GET_EFFICIENCY\<close> is set
  in the flags and from the entry of \<^verbatim>\<open>PHsum\<close> otherwise.
\<close>

theorem RocCalibrateMap_result:
  assumes "2 \<le> length parameter"
  shows "RocCalibrateMap FLAG_INTERNAL_GET_EFFICIENCY pixel_of rocid parameter
         (status, nReadouts, PHsum, address) tb =
       Inr (if length nReadouts = length PHsum \<and> length PHsum = length address
            then [map (\<lambda>k. pixel_of (address ! k)
                         (if parameter ! 0 AND FLAG_INTERNAL_GET_EFFICIENCY \<noteq> 0
                          then scast (nReadouts ! k) else PHsum ! k))
                      [0..<length address]]
            else [],
            tb @ [roc_I2cAddr rocid, CalibrateMap (parameter ! 1)])"
proof (cases "length nReadouts = length PHsum \<and> length PHsum = length address")
  case True
  then have "RocCalibrateMap_fill pixel_of eff nReadouts PHsum address 0 [] =
     Inr ([] @ map (\<lambda>k. pixel_of (address ! k)
                           (if eff then scast (nReadouts ! (0 + k)) else PHsum ! (0 + k)))
                  [0..<length address])" for eff
    by (intro RocCalibrateMap_fill_pixels) simp_all
  moreover from assms have "parameter \<noteq> []" by auto
  ultimately show ?thesis
    using True assms by (simp add: RocCalibrateMap_def at_vec_def Let_def)
next
  case False
  moreover from assms have "parameter \<noteq> []" by auto
  ultimately show ?thesis
    using assms by (auto simp: RocCalibrateMap_def at_vec_def Let_def)
qed

theorem RocCalibrateMap_result_witness:
  "RocCalibrateMap 2 (\<lambda>a v. \<lparr>roc_id = 0, column = ucast a, row = 0, value = v\<rparr>) 1 [2, 10]
       (0, [- 1, 4], [70, 80], [5, 6]) [] =
     Inr ([[\<lparr>roc_id = 0, column = 5, row = 0, value = - 1\<rparr>,
            \<lparr>roc_id = 0, column = 6, row = 0, value = 4\<rparr>]],
          [roc_I2cAddr 1, CalibrateMap 10])
   \<and> RocCalibrateMap 2 (\<lambda>a v. \<lparr>roc_id = 0, column = ucast a, row = 0, value = v\<rparr>) 1 [0, 10]
       (0, [- 1, 4], [70, 80], [5, 6]) [] =
     Inr ([[\<lparr>roc_id = 0, column = 5, row = 0, value = 70\<rparr>,
            \<lparr>roc_id = 0, column = 6, row = 0, value = 80\<rparr>]],
          [roc_I2cAddr 1, CalibrateMap 10])
   \<and> RocCalibrateMap 2 (\<lambda>a v. \<lparr>roc_id = 0, column = ucast a, row = 0, value = v\<rparr>) 1 [2, 10]
       (0, [- 1, 4], [70, 80], [5]) [] =
     Inr ([], [roc_I2cAddr 1, CalibrateMap 10])"
proof -
  have len: "2 \<le> length [2, 10 :: int32]" "2 \<le> length [0, 10 :: int32]" by simp_all
  have upt: "[0..<2] = [0, 1]" by (simp add: upt_conv_Cons)
  show ?thesis
    using RocCalibrateMap_result [OF len(1), of 2
            "\<lambda>a v. \<lparr>roc_id = 0, column = ucast a, row = 0, value = v\<rparr>" 1 0
            "[- 1, 4]" "[70, 80]" "[5, 6]" "[]"]
          RocCalibrateMap_result [OF len(2), of 2
            "\<lambda>a v. \<lparr>roc_id = 0, column = ucast a, row = 0, value = v\<rparr>" 1 0
            "[- 1, 4]" "[70, 80]" "[5, 6]" "[]"]
          RocCalibrateMap_result [OF len(1), of 2
            "\<lambda>a v. \<lparr>roc_id = 0, column = ucast a, row = 0, value = v\<rparr>" 1 0
            "[- 1, 4]" "[70, 80]" "[5]" "[]"]
    by (simp add: upt)
qed

text \<open>
  Claim C5. \<^verbatim>\<open>daqRead\<close> asks for the size of the channel 0 buffer and reads
  that many words from channel 0; when \<^verbatim>\<open>nTBMs > 0\<close> it also asks for the size
  of channel 1 (before the first read) and reads channel 1 after channel 0.
  The vector returned is the channel 0 words followed by the channel 1 words,
  and the channel 0 words alone when \<^verbatim>\<open>nTBMs\<close> is 0.
\<close>

theorem daqRead_result:
  "daqRead nTBMs dev tb =
     (if nTBMs > 0
      then (Read_answer dev (GetSize_answer dev 0) 0 @ Read_answer dev (GetSize_answer dev 1) 1,
            tb @ [Daq_GetSize 0, Daq_GetSize 1,
                  Daq_Read (GetSize_answer dev 0) 0, Daq_Read (GetSize_answer dev 1) 1])
      else (Read_answer dev (GetSize_answer dev 0) 0,
            tb @ [Daq_GetSize 0, Daq_Read (GetSize_answer dev 0) 0]))"
  by (simp add: daqRead_def Let_def)

end
